theory Spec2Isabelle
  imports Complex_Main "HOL-Library.Word"
begin

section \<open>JavaScript strings\<close>

text \<open>
  A JavaScript string is a sequence of 16-bit code units. \<open>utf16\<close> embeds an
  Isabelle literal (whose characters are below 256) so that the messages of the source can
  be written as literals.
\<close>

type_synonym jschar = "16 word"
type_synonym jsstring = "jschar list"

definition utf16 :: "string \<Rightarrow> jsstring" where
  "utf16 s = map of_char s"

text \<open>
  \<open>String.prototype.trim\<close> strips WhiteSpace and LineTerminator code units from both
  ends: TAB, LF, VT, FF, CR, SP, NBSP, U+1680, U+2000..U+200A, U+2028, U+2029, U+202F,
  U+205F, U+3000 and U+FEFF.
\<close>

definition is_js_space :: "jschar \<Rightarrow> bool" where
  "is_js_space c \<longleftrightarrow>
     c = 0x09 \<or> c = 0x0A \<or> c = 0x0B \<or> c = 0x0C \<or> c = 0x0D \<or> c = 0x20 \<or> c = 0xA0 \<or>
     c = 0x1680 \<or> (0x2000 \<le> c \<and> c \<le> 0x200A) \<or> c = 0x2028 \<or> c = 0x2029 \<or>
     c = 0x202F \<or> c = 0x205F \<or> c = 0x3000 \<or> c = 0xFEFF"

definition trim :: "jsstring \<Rightarrow> jsstring" where
  "trim s = rev (dropWhile is_js_space (rev (dropWhile is_js_space s)))"

text \<open>\<open>s.includes(t)\<close>: \<open>t\<close> occurs in \<open>s\<close> as a contiguous run.\<close>

fun starts_with :: "jsstring \<Rightarrow> jsstring \<Rightarrow> bool" where
  "starts_with s [] = True"
| "starts_with [] (c # t) = False"
| "starts_with (d # s) (c # t) = (d = c \<and> starts_with s t)"

fun js_includes :: "jsstring \<Rightarrow> jsstring \<Rightarrow> bool" where
  "js_includes [] t = (t = [])"
| "js_includes (c # s) t = (starts_with (c # s) t \<or> js_includes s t)"

section \<open>Subtitle entries and batches\<close>

record entry =
  index :: int
  startTime :: jsstring
  endTime :: jsstring
  entry_text :: jsstring

record batch =
  batch_index :: nat
  entries :: "entry list"
  contextEntries :: "entry list"
  startIndex :: nat
  endIndex :: nat

section \<open>The response reconciler: \<open>parseAPIResponse\<close>\<close>

text \<open>
  The separator \<open>/\n---\n|\n-{3,}\n/\<close> tried at the head of a string. The first
  alternative is a line feed, exactly three dashes and a line feed; the second a line
  feed, a greedy run of at least three dashes and a line feed (giving back dashes cannot
  help, since the next unit must be a line feed). The result is the length of the match.
\<close>

definition sep_alt1 :: "jsstring \<Rightarrow> nat option" where
  "sep_alt1 s = (if starts_with s [0x0A, 0x2D, 0x2D, 0x2D, 0x0A] then Some 5 else None)"

definition sep_alt2 :: "jsstring \<Rightarrow> nat option" where
  "sep_alt2 s =
     (case s of
        [] \<Rightarrow> None
      | c # r \<Rightarrow>
          if c = 0x0A then
            (let dashes = takeWhile (\<lambda>d. d = 0x2D) r
             in if 3 \<le> length dashes \<and> starts_with (dropWhile (\<lambda>d. d = 0x2D) r) [0x0A]
                then Some (length dashes + 2) else None)
          else None)"

definition sep_match :: "jsstring \<Rightarrow> nat option" where
  "sep_match s = (case sep_alt1 s of Some n \<Rightarrow> Some n | None \<Rightarrow> sep_alt2 s)"

text \<open>
  \<open>response.split(re)\<close>: scan from the left; where the separator matches, close the
  current block and continue after the match; otherwise move one unit on. The text after
  the last match is the last block, so the empty string splits into one empty block.
\<close>

function split_blocks :: "jsstring \<Rightarrow> jsstring \<Rightarrow> jsstring list" where
  "split_blocks cur [] = [cur]"
| "split_blocks cur (c # cs) =
     (case sep_match (c # cs) of
        Some n \<Rightarrow> cur # split_blocks [] (drop n (c # cs))
      | None \<Rightarrow> split_blocks (cur @ [c]) cs)"
  by pat_completeness auto
termination
  by (relation "measure (\<lambda>(cur, s). length s)")
    (auto simp: sep_match_def sep_alt1_def sep_alt2_def Let_def
      split: option.splits if_splits list.splits)

definition split_response :: "jsstring \<Rightarrow> jsstring list" where
  "split_response response = split_blocks [] response"

text \<open>
  \<open>block.match(/^\[(\d+)\]\n?([\s\S]*)/)\<close>: an opening bracket, one or more ASCII
  digits, a closing bracket, an optional line feed, and the rest. The result is the
  second group (the rest), when the block matches.
\<close>

definition is_digit :: "jschar \<Rightarrow> bool" where
  "is_digit c \<longleftrightarrow> 0x30 \<le> c \<and> c \<le> 0x39"

definition indexMatch :: "jsstring \<Rightarrow> jsstring option" where
  "indexMatch block =
     (case block of
        [] \<Rightarrow> None
      | c # r \<Rightarrow>
          if c = 0x5B \<and> takeWhile is_digit r \<noteq> [] then
            (case dropWhile is_digit r of
               [] \<Rightarrow> None
             | d # r' \<Rightarrow>
                 if d = 0x5D then
                   Some (case r' of [] \<Rightarrow> [] | n # t \<Rightarrow> if n = 0x0A then t else n # t)
                 else None)
          else None)"

text \<open>
  The first loop of \<open>parseAPIResponse\<close>: \<open>i\<close> walks the blocks and the originals
  together; a block that is empty after trimming is skipped by \<open>continue\<close>, with
  nothing pushed.
\<close>

fun parse_loop :: "jsstring list \<Rightarrow> entry list \<Rightarrow> entry list \<Rightarrow> entry list" where
  "parse_loop (b # blocks) (original # originals) translatedEntries =
     (let block = trim b in
      if block = [] then parse_loop blocks originals translatedEntries
      else
        let translatedText = (case indexMatch block of Some rest \<Rightarrow> trim rest | None \<Rightarrow> block)
        in parse_loop blocks originals
             (translatedEntries @
              [\<lparr>index = index original, startTime = startTime original,
                endTime = endTime original, entry_text = translatedText\<rparr>]))"
| "parse_loop [] originals translatedEntries = translatedEntries"
| "parse_loop blocks [] translatedEntries = translatedEntries"

text \<open>
  The second loop: while fewer entries than originals, push a copy of the original at
  position \<open>translatedEntries.length\<close>.
\<close>

function pad_loop :: "entry list \<Rightarrow> entry list \<Rightarrow> entry list" where
  "pad_loop originalEntries translatedEntries =
     (if length translatedEntries < length originalEntries then
        (let original = originalEntries ! length translatedEntries
         in pad_loop originalEntries
              (translatedEntries @
               [\<lparr>index = index original, startTime = startTime original,
                 endTime = endTime original, entry_text = entry_text original\<rparr>]))
      else translatedEntries)"
  by pat_completeness auto
termination
  by (relation "measure (\<lambda>(os, ts). length os - length ts)") auto

declare pad_loop.simps [simp del]

definition parseAPIResponse :: "jsstring \<Rightarrow> entry list \<Rightarrow> entry list" where
  "parseAPIResponse response originalEntries =
     pad_loop originalEntries (parse_loop (split_response response) originalEntries [])"

section \<open>The segmenter: \<open>createBatches\<close>\<close>

text \<open>\<open>DEFAULT_CONFIG\<close>.\<close>

definition maxEntriesPerBatch :: int where
  "maxEntriesPerBatch = 50"








section \<open>The provider call: \<open>callGeminiAPI\<close>\<close>

text \<open>
  What \<open>fetch\<close> can give back. A fetch either rejects (a network failure, with the
  message of the error) or resolves with a response: its status and the result of
  \<open>response.json()\<close>, which either fails with a message or delivers the fields the
  code reads. \<open>feedback_json\<close> is \<open>JSON.stringify(feedback)\<close>; \<open>content_parts\<close> holds
  the texts of \<open>candidate.content.parts\<close>, \<open>None\<close> when \<open>content\<close> or \<open>parts\<close> is
  missing. The request itself (URL, key, prompt) is not part of the model.
\<close>

record feedback =
  blockReason :: "jsstring option"
  feedback_json :: jsstring

record candidate =
  finishReason :: "jsstring option"
  safetyRatings :: "(jsstring \<times> jsstring) list option"
  content_parts :: "jsstring list option"

record api_json =
  error_message :: "jsstring option"
  promptFeedback :: "feedback option"
  candidates :: "candidate list option"

datatype json_result = JsonFails jsstring | Json api_json

record http_response =
  status :: nat
  json :: json_result

datatype fetch_outcome = FetchRejects jsstring | FetchResolves http_response

definition ok :: "http_response \<Rightarrow> bool" where
  "ok response \<longleftrightarrow> 200 \<le> status response \<and> status response \<le> 299"

text \<open>\<open>x || d\<close> on an optional string: a missing or empty \<open>x\<close> is falsy.\<close>

definition or_else :: "jsstring option \<Rightarrow> jsstring \<Rightarrow> jsstring" where
  "or_else x d = (case x of None \<Rightarrow> d | Some v \<Rightarrow> if v = [] then d else v)"

definition truthy :: "jsstring option \<Rightarrow> bool" where
  "truthy x \<longleftrightarrow> (case x of None \<Rightarrow> False | Some v \<Rightarrow> v \<noteq> [])"

text \<open>A non-negative integer in a template string: its decimal digits.\<close>

fun show_nat :: "nat \<Rightarrow> jsstring" where
  "show_nat n =
     (if n < 10 then [0x30 + of_nat n] else show_nat (n div 10) @ [0x30 + of_nat (n mod 10)])"

fun js_join :: "jsstring \<Rightarrow> jsstring list \<Rightarrow> jsstring" where
  "js_join sep [] = []"
| "js_join sep [x] = x"
| "js_join sep (x # y # ys) = x @ sep @ js_join sep (y # ys)"

text \<open>
  \<open>errorMessage\<close>: the provider's message, or \<open>HTTP\<close> and the status when the body has
  none. Then the message thrown for a response that is not \<open>ok\<close>.
\<close>

definition errorMessage :: "http_response \<Rightarrow> jsstring" where
  "errorMessage response =
     or_else (case json response of JsonFails m \<Rightarrow> None | Json errorData \<Rightarrow> error_message errorData)
       (utf16 ''HTTP '' @ show_nat (status response))"

definition http_error :: "http_response \<Rightarrow> jsstring" where
  "http_error response =
     (if status response = 400 then utf16 ''Invalid request: '' @ errorMessage response
      else if status response = 401 \<or> status response = 403 then
        utf16 ''Invalid API key. Please check your Gemini API key.''
      else if status response = 429 then
        utf16 ''Rate limit exceeded. Please wait a moment and try again.''
      else if 500 \<le> status response then
        utf16 ''Gemini API server error. Please try again later.''
      else utf16 ''API error: '' @ errorMessage response)"

text \<open>\<open>data.promptFeedback?.blockReason\<close>.\<close>

definition block_reason :: "api_json \<Rightarrow> jsstring option" where
  "block_reason data = (case promptFeedback data of None \<Rightarrow> None | Some fb \<Rightarrow> blockReason fb)"

text \<open>The error for missing or empty \<open>candidates\<close>.\<close>

definition no_candidates :: "api_json \<Rightarrow> jsstring" where
  "no_candidates data =
     (case promptFeedback data of
        Some fb \<Rightarrow> utf16 ''No response from Gemini API. Feedback: '' @ feedback_json fb
      | None \<Rightarrow> utf16 ''No response from Gemini API - empty candidates'')"

text \<open>
  The checks on the first candidate. \<open>ratings_text\<close> is the list of its safety ratings as
  the message shows it.
\<close>

definition ratings_text :: "candidate \<Rightarrow> jsstring" where
  "ratings_text c =
     or_else (map_option (\<lambda>rs. js_join (utf16 '', '')
                 (map (\<lambda>(category, probability). category @ utf16 '': '' @ probability) rs))
                (safetyRatings c))
       (utf16 ''unknown reason'')"

definition read_candidate :: "candidate \<Rightarrow> jsstring + jsstring" where
  "read_candidate c =
     (if finishReason c = Some (utf16 ''SAFETY'') then
        Inl (utf16 ''Response blocked by safety filter: '' @ ratings_text c)
      else if finishReason c = Some (utf16 ''RECITATION'') then
        Inl (utf16 ''Response blocked due to recitation/copyright concerns'')
      else
        (case content_parts c of
           Some (t # ts) \<Rightarrow> Inr t
         | _ \<Rightarrow> Inl (utf16 ''Empty response from Gemini API. Finish reason: '' @
                     or_else (finishReason c) (utf16 ''unknown''))))"

text \<open>\<open>callGeminiAPI\<close>: \<open>Inl\<close> carries the message of the error thrown, \<open>Inr\<close> the text.\<close>

definition callGeminiAPI :: "fetch_outcome \<Rightarrow> jsstring + jsstring" where
  "callGeminiAPI outcome =
     (case outcome of
        FetchRejects m \<Rightarrow> Inl m
      | FetchResolves response \<Rightarrow>
          if \<not> ok response then Inl (http_error response)
          else
            (case json response of
               JsonFails m \<Rightarrow> Inl m
             | Json data \<Rightarrow>
                 if truthy (block_reason data) then
                   Inl (utf16 ''Content blocked: '' @ or_else (block_reason data) [])
                 else
                   (case candidates data of
                      Some (c # cs) \<Rightarrow> read_candidate c
                    | _ \<Rightarrow> Inl (no_candidates data))))"

section \<open>The environment and the state of a run\<close>

text \<open>
  The environment of a run: the outcome and the duration (in ms) of the \<open>n\<close>-th fetch,
  the \<open>n\<close>-th value of \<open>Math.random()\<close>, and the time at which the abort signal fires
  (\<open>None\<close>: never, or no signal given). Times and delays are reals, standing for the
  doubles of the source.
\<close>

record world =
  fetch_reply :: "nat \<Rightarrow> fetch_outcome"
  fetch_ms :: "nat \<Rightarrow> real"
  random :: "nat \<Rightarrow> real"
  abort_at :: "real option"

text \<open>
  The callbacks are recorded as events, with their arguments; the status and log texts
  are kept as the values the source formats into them. The callbacks are taken to be
  given and to return normally. \<open>Slept\<close> records a completed \<open>delay\<close>.
\<close>

datatype status_text =
    Translating nat nat
  | RateLimitedWaiting int nat int
  | Completed nat nat
  | WaitingBeforeNext

datatype log_type = Request | Response | Waiting

datatype log_message =
    Resuming nat nat
  | Sending nat "entry list"
  | Received nat "entry list"
  | RateLimitedLog int nat int

datatype event =
    OnProgress nat nat nat status_text
  | OnLog log_type log_message "(nat \<times> nat) option"
  | OnBatchComplete nat "entry list" bool
  | OnWaiting int nat int
  | Slept real

record run_state =
  now :: real
  fetches :: nat
  randoms :: nat
  trace :: "event list"

datatype thrown = Error jsstring | Undefined

definition emit :: "event list \<Rightarrow> run_state \<Rightarrow> run_state" where
  "emit es s = s\<lparr>trace := trace s @ es\<rparr>"

text \<open>\<open>signal?.aborted\<close> at the current time.\<close>

definition aborted :: "world \<Rightarrow> run_state \<Rightarrow> bool" where
  "aborted w s \<longleftrightarrow> (case abort_at w of None \<Rightarrow> False | Some t \<Rightarrow> t \<le> now s)"

text \<open>
  \<open>delay(ms)\<close> is \<open>new Promise(resolve => setTimeout(resolve, ms))\<close>: it takes no
  signal, and resolves when the time has passed.
\<close>

definition delay :: "real \<Rightarrow> run_state \<Rightarrow> run_state" where
  "delay ms s = s\<lparr>now := now s + ms, trace := trace s @ [Slept ms]\<rparr>"

definition do_fetch :: "world \<Rightarrow> run_state \<Rightarrow> fetch_outcome \<times> run_state" where
  "do_fetch w s =
     (fetch_reply w (fetches s),
      s\<lparr>now := now s + fetch_ms w (fetches s), fetches := fetches s + 1\<rparr>)"

definition math_random :: "world \<Rightarrow> run_state \<Rightarrow> real \<times> run_state" where
  "math_random w s = (random w (randoms s), s\<lparr>randoms := randoms s + 1\<rparr>)"

text \<open>\<open>Math.round\<close>: to the nearest integer, halves upwards.\<close>

definition math_round :: "real \<Rightarrow> int" where
  "math_round x = \<lfloor>x + 1 / 2\<rfloor>"

section \<open>The retry controller: \<open>translateBatchWithRetry\<close>\<close>

text \<open>
  \<open>translateBatch\<close>: one call of the provider, then the reconciler on its text. The
  prompt it builds goes into the request only.
\<close>

definition translateBatch :: "world \<Rightarrow> batch \<Rightarrow> run_state \<Rightarrow> (jsstring + entry list) \<times> run_state" where
  "translateBatch w b s =
     (let (outcome, s1) = do_fetch w s
      in case callGeminiAPI outcome of
           Inl m \<Rightarrow> (Inl m, s1)
         | Inr response \<Rightarrow> (Inr (parseAPIResponse response (entries b)), s1))"

definition isRetryable :: "jsstring \<Rightarrow> bool" where
  "isRetryable m \<longleftrightarrow>
     js_includes m (utf16 ''Rate limit'') \<or>
     js_includes m (utf16 ''429'') \<or>
     js_includes m (utf16 ''Too Many'') \<or>
     js_includes m (utf16 ''Empty response'') \<or>
     js_includes m (utf16 ''empty candidates'') \<or>
     js_includes m (utf16 ''No response from Gemini'')"

definition cancelled :: thrown where
  "cancelled = Error (utf16 ''Translation cancelled'')"

text \<open>
  The block run after a retryable failure with attempts left: the delay is computed,
  \<open>onWaiting\<close> is called (it is given as the events the callback records), and the loop
  sleeps for the delay.
\<close>

definition backoff ::
  "world \<Rightarrow> int \<Rightarrow> (int \<Rightarrow> nat \<Rightarrow> int \<Rightarrow> event list) \<Rightarrow> nat \<Rightarrow> run_state \<Rightarrow> run_state" where
  "backoff w maxRetries onWaiting attempt s =
     (let baseDelay = 15000;
          backoffDelay = baseDelay * 2 ^ attempt;
          (r, s2) = math_random w s;
          jitter = r * 2000;
          totalDelay = backoffDelay + jitter;
          waitSeconds = math_round (totalDelay / 1000);
          s3 = emit (onWaiting waitSeconds (attempt + 1) maxRetries) s2
      in delay totalDelay s3)"

text \<open>The \<open>for\<close> loop over \<open>attempt\<close>, with \<open>lastError\<close> (\<open>None\<close> while undefined).\<close>

function retry_loop ::
  "world \<Rightarrow> batch \<Rightarrow> int \<Rightarrow> (int \<Rightarrow> nat \<Rightarrow> int \<Rightarrow> event list) \<Rightarrow> nat \<Rightarrow> jsstring option \<Rightarrow>
   run_state \<Rightarrow> (thrown + entry list) \<times> run_state" where
  "retry_loop w b maxRetries onWaiting attempt lastError s =
     (if int attempt \<le> maxRetries then
        if aborted w s then (Inl cancelled, s)
        else
          (case translateBatch w b s of
             (Inr translatedEntries, s1) \<Rightarrow> (Inr translatedEntries, s1)
           | (Inl m, s1) \<Rightarrow>
               if \<not> isRetryable m then (Inl (Error m), s1)
               else if int attempt < maxRetries then
                 retry_loop w b maxRetries onWaiting (attempt + 1) (Some m)
                   (backoff w maxRetries onWaiting attempt s1)
               else retry_loop w b maxRetries onWaiting (attempt + 1) (Some m) s1)
      else (Inl (case lastError of None \<Rightarrow> Undefined | Some m \<Rightarrow> Error m), s))"
  by pat_completeness auto
termination
  by (relation "measure (\<lambda>(w, b, maxRetries, onWaiting, attempt, lastError, s). nat (maxRetries + 1 - int attempt))")
    auto

declare retry_loop.simps [simp del]

definition translateBatchWithRetry ::
  "world \<Rightarrow> batch \<Rightarrow> int \<Rightarrow> (int \<Rightarrow> nat \<Rightarrow> int \<Rightarrow> event list) \<Rightarrow> run_state \<Rightarrow>
   (thrown + entry list) \<times> run_state" where
  "translateBatchWithRetry w b maxRetries onWaiting s = retry_loop w b maxRetries onWaiting 0 None s"

section \<open>The orchestrator: \<open>translateAllBatches\<close>\<close>

definition BATCH_DELAY :: real where
  "BATCH_DELAY = 4000"

text \<open>
  The callbacks before the call of a batch, the \<open>onWaiting\<close> callback handed to the retry
  controller, and the statements after a successful call: the response is logged, the
  checkpoint and the progress are reported, and, unless the batch is the last, the loop
  sleeps for \<open>BATCH_DELAY\<close>.
\<close>

definition before_batch :: "batch list \<Rightarrow> nat \<Rightarrow> run_state \<Rightarrow> run_state" where
  "before_batch batches i s =
     (let b = batches ! i;
          n = length batches;
          s1 = emit [OnProgress i n (length (entries b)) (Translating (i + 1) n)] s
      in emit [OnLog Request (Sending (length (entries b)) (take 3 (entries b))) (Some (i + 1, n))] s1)"

definition waiting_callback :: "batch list \<Rightarrow> nat \<Rightarrow> int \<Rightarrow> nat \<Rightarrow> int \<Rightarrow> event list" where
  "waiting_callback batches i waitSeconds attempt maxRetries =
     (let n = length batches
      in [OnProgress i n 0 (RateLimitedWaiting waitSeconds attempt maxRetries),
          OnLog Waiting (RateLimitedLog waitSeconds attempt maxRetries) (Some (i + 1, n))])"

definition after_batch :: "batch list \<Rightarrow> nat \<Rightarrow> entry list \<Rightarrow> entry list \<Rightarrow> run_state \<Rightarrow> run_state" where
  "after_batch batches i translatedEntries allTranslatedEntries s =
     (let b = batches ! i;
          n = length batches;
          s4 = emit [OnLog Response (Received (length translatedEntries) (take 3 translatedEntries))
                       (Some (i + 1, n))] s;
          s5 = emit [OnBatchComplete (i + 1) allTranslatedEntries False] s4;
          s6 = emit [OnProgress (i + 1) n (length (entries b)) (Completed (i + 1) n)] s5
      in if i < n - 1 then delay BATCH_DELAY (emit [OnProgress (i + 1) n 0 WaitingBeforeNext] s6)
         else s6)"

text \<open>
  The \<open>for\<close> loop over the batches. The abort check at its head throws outside the
  \<open>try\<close>; a failure of \<open>translateBatchWithRetry\<close> is caught, reported with
  \<open>onBatchComplete(i, allTranslatedEntries, true)\<close>, and thrown again.
\<close>

function translate_loop ::
  "world \<Rightarrow> batch list \<Rightarrow> nat \<Rightarrow> entry list \<Rightarrow> run_state \<Rightarrow> (thrown + entry list) \<times> run_state" where
  "translate_loop w batches i allTranslatedEntries s =
     (if i < length batches then
        if aborted w s then (Inl cancelled, s)
        else
          (case translateBatchWithRetry w (batches ! i) 5 (waiting_callback batches i)
                  (before_batch batches i s) of
             (Inl error, s3) \<Rightarrow>
               (Inl error, emit [OnBatchComplete i allTranslatedEntries True] s3)
           | (Inr translatedEntries, s3) \<Rightarrow>
               translate_loop w batches (i + 1) (allTranslatedEntries @ translatedEntries)
                 (after_batch batches i translatedEntries (allTranslatedEntries @ translatedEntries) s3))
      else (Inr allTranslatedEntries, s))"
  by pat_completeness auto
termination
  by (relation "measure (\<lambda>(w, batches, i, allTranslatedEntries, s). length batches - i)") auto

declare translate_loop.simps [simp del]

definition translateAllBatches ::
  "world \<Rightarrow> batch list \<Rightarrow> nat \<Rightarrow> entry list \<Rightarrow> run_state \<Rightarrow> (thrown + entry list) \<times> run_state" where
  "translateAllBatches w batches startFromBatch existingEntries s =
     (let s0 = (if 0 < startFromBatch then
                  emit [OnLog Response (Resuming (startFromBatch + 1) (length existingEntries)) None] s
                else s)
      in translate_loop w batches startFromBatch existingEntries s0)"

section \<open>\<open>validateApiKey\<close>\<close>

text \<open>
  The body of the \<open>try\<close>: the fetch may reject; otherwise the result is \<open>response.ok\<close>.
  The \<open>catch\<close> turns every rejection into \<open>false\<close>.
\<close>

definition validate_request :: "world \<Rightarrow> run_state \<Rightarrow> (thrown + bool) \<times> run_state" where
  "validate_request w s =
     (let (outcome, s1) = do_fetch w s
      in case outcome of
           FetchRejects m \<Rightarrow> (Inl (Error m), s1)
         | FetchResolves response \<Rightarrow> (Inr (ok response), s1))"

definition validateApiKey :: "world \<Rightarrow> jsstring \<Rightarrow> run_state \<Rightarrow> (thrown + bool) \<times> run_state" where
  "validateApiKey w apiKey s =
     (if apiKey = [] \<or> length (trim apiKey) = 0 then (Inr False, s)
      else
        (case validate_request w s of
           (Inl e, s1) \<Rightarrow> (Inr False, s1)
         | (Inr r, s1) \<Rightarrow> (Inr r, s1)))"

section \<open>Reading a trace\<close>

text \<open>The checkpoints among some events, and the calls of \<open>onWaiting\<close>.\<close>

fun is_checkpoint :: "event \<Rightarrow> bool" where
  "is_checkpoint (OnBatchComplete k es f) = True"
| "is_checkpoint e = False"

fun is_waiting :: "event \<Rightarrow> bool" where
  "is_waiting (OnWaiting waitSeconds attempt maxRetries) = True"
| "is_waiting e = False"

text \<open>The callback that records a call of \<open>onWaiting\<close> as it is.\<close>

definition record_waiting :: "int \<Rightarrow> nat \<Rightarrow> int \<Rightarrow> event list" where
  "record_waiting waitSeconds attempt maxRetries = [OnWaiting waitSeconds attempt maxRetries]"

text \<open>The number of entries in a list of batches.\<close>

definition entry_count :: "batch list \<Rightarrow> nat" where
  "entry_count batches = sum_list (map (\<lambda>b. length (entries b)) batches)"

text \<open>The delay the retry loop computes after the failure of attempt \<open>attempt\<close>.\<close>

definition total_delay :: "world \<Rightarrow> nat \<Rightarrow> run_state \<Rightarrow> real" where
  "total_delay w attempt s = 15000 * 2 ^ attempt + random w (randoms s) * 2000"

section \<open>Sample data\<close>

definition entry1 :: entry where
  "entry1 = \<lparr>index = 1, startTime = utf16 ''00:00:01,000'', endTime = utf16 ''00:00:02,000'',
              entry_text = utf16 ''Hello''\<rparr>"

definition entry2 :: entry where
  "entry2 = \<lparr>index = 2, startTime = utf16 ''00:00:03,000'', endTime = utf16 ''00:00:04,000'',
              entry_text = utf16 ''World''\<rparr>"

definition entry3 :: entry where
  "entry3 = \<lparr>index = 3, startTime = utf16 ''00:00:05,000'', endTime = utf16 ''00:00:06,000'',
              entry_text = utf16 ''Bye''\<rparr>"

definition entry4 :: entry where
  "entry4 = \<lparr>index = 4, startTime = utf16 ''00:00:07,000'', endTime = utf16 ''00:00:08,000'',
              entry_text = utf16 ''See you''\<rparr>"

definition batch1 :: batch where
  "batch1 = \<lparr>batch_index = 0, entries = [entry1], contextEntries = [], startIndex = 0, endIndex = 1\<rparr>"

definition batch2 :: batch where
  "batch2 = \<lparr>batch_index = 1, entries = [entry2], contextEntries = [entry1], startIndex = 1,
              endIndex = 2\<rparr>"

text \<open>A reply with one candidate carrying the text \<open>t\<close>, and a reply with an error status.\<close>

definition text_reply :: "jsstring \<Rightarrow> fetch_outcome" where
  "text_reply t =
     FetchResolves \<lparr>status = 200,
       json = Json \<lparr>error_message = None, promptFeedback = None,
         candidates = Some [\<lparr>finishReason = Some (utf16 ''STOP''), safetyRatings = None,
                             content_parts = Some [t]\<rparr>]\<rparr>\<rparr>"

definition status_reply :: "nat \<Rightarrow> jsstring option \<Rightarrow> fetch_outcome" where
  "status_reply st m =
     FetchResolves \<lparr>status = st,
       json = Json \<lparr>error_message = m, promptFeedback = None, candidates = None\<rparr>\<rparr>"

text \<open>
  An environment that answers the fetches from a list (and rejects once the list is used
  up), takes 50 ms for each, draws \<open>1/2\<close> from \<open>Math.random()\<close>, and aborts at the given
  time.
\<close>

definition scripted :: "fetch_outcome list \<Rightarrow> real option \<Rightarrow> world" where
  "scripted rs a =
     \<lparr>fetch_reply = (\<lambda>n. if n < length rs then rs ! n else FetchRejects (utf16 ''Failed to fetch'')),
      fetch_ms = (\<lambda>n. 50), random = (\<lambda>n. 1 / 2), abort_at = a\<rparr>"

text \<open>An environment in which every fetch is answered with status 429.\<close>

definition always_limited :: world where
  "always_limited =
     \<lparr>fetch_reply = (\<lambda>n. status_reply 429 None), fetch_ms = (\<lambda>n. 50), random = (\<lambda>n. 1 / 2),
      abort_at = None\<rparr>"



text \<open>
  An environment whose first fetch delivers a translation and whose second fetch is
  answered with status 500; and one with two translations, in which the signal aborts at
  time 100.
\<close>

definition failing_second :: world where
  "failing_second = scripted [text_reply (utf16 ''Hallo''), status_reply 500 None] None"


text \<open>
  Two environments in which the signal aborts during a wait: after a first answer of 429,
  at time 100; and between two translations, at time 2000.
\<close>

definition limited_then_abort :: world where
  "limited_then_abort = scripted [status_reply 429 None, text_reply (utf16 ''Hallo'')] (Some 100)"

definition aborting_midway :: world where
  "aborting_midway = scripted [text_reply (utf16 ''Hallo''), text_reply (utf16 ''Welt'')] (Some 2000)"

definition start :: run_state where
  "start = \<lparr>now = 0, fetches = 0, randoms = 0, trace = []\<rparr>"

section \<open>Properties of the reconciler\<close>

subsection \<open>The number of entries returned\<close>

lemma parse_loop_length:
  "length (parse_loop blocks originals acc) \<le> length acc + length originals"
  by (induction blocks originals acc rule: parse_loop.induct) (auto simp: Let_def)

lemma pad_loop_length:
  "length acc \<le> length originals \<Longrightarrow> length (pad_loop originals acc) = length originals"
proof (induction originals acc rule: pad_loop.induct)
  case (1 originals acc)
  show ?case
  proof (cases "length acc < length originals")
    case True
    then show ?thesis using "1.IH" by (subst pad_loop.simps) (simp add: Let_def)
  next
    case False
    then show ?thesis using "1.prems" by (subst pad_loop.simps) simp
  qed
qed

lemma parseAPIResponse_length:
  "length (parseAPIResponse response originalEntries) = length originalEntries"
  unfolding parseAPIResponse_def
  using parse_loop_length [of "split_response response" originalEntries "[]"]
  by (intro pad_loop_length) simp



lemma parseAPIResponse_empty_response: "parseAPIResponse [] [a, b] = [a, b]"
  by (simp add: parseAPIResponse_def split_response_def trim_def pad_loop.simps)

text \<open>
  C1. The reconciler is to return one entry for each original, in order, the \<open>i\<close>-th
  with the \<open>index\<close>, \<open>startTime\<close> and \<open>endTime\<close> of the \<open>i\<close>-th original. The number of
  entries is right (\<open>parseAPIResponse_length\<close>), the alignment is not. In the response
  \<open>"[1]\nHallo\n---\n\n---\n[3]\nTschuess"\<close> the second of three blocks is empty; the
  loop skips it without an entry, so the third block, made from the third original,
  lands at position 1, and the padding repeats the third original.
\<close>

theorem parseAPIResponse_misaligned:
  "parseAPIResponse (utf16 ''[1]\<newline>Hallo\<newline>---\<newline>\<newline>---\<newline>[3]\<newline>Tschuess'') [entry1, entry2, entry3] =
     [entry1\<lparr>entry_text := utf16 ''Hallo''\<rparr>, entry3\<lparr>entry_text := utf16 ''Tschuess''\<rparr>, entry3] \<and>
   index (parseAPIResponse (utf16 ''[1]\<newline>Hallo\<newline>---\<newline>\<newline>---\<newline>[3]\<newline>Tschuess'') [entry1, entry2, entry3] ! 1)
     \<noteq> index ([entry1, entry2, entry3] ! 1)"
  by code_simp

text \<open>
  C7. With fewer segments than originals the remainder is to be padded with the
  originals, so that no entry is lost. For the same response (three segments) and four
  originals the last position is padded with the fourth original, but the result holds
  the third original twice and the second not at all. The empty response does give back
  the originals (\<open>parseAPIResponse_empty_response\<close>).
\<close>

theorem parseAPIResponse_loses_entry:
  "length (split_response (utf16 ''[1]\<newline>Hallo\<newline>---\<newline>\<newline>---\<newline>[3]\<newline>Tschuess'')) < length [entry1, entry2, entry3, entry4] \<and>
   parseAPIResponse (utf16 ''[1]\<newline>Hallo\<newline>---\<newline>\<newline>---\<newline>[3]\<newline>Tschuess'') [entry1, entry2, entry3, entry4] =
     [entry1\<lparr>entry_text := utf16 ''Hallo''\<rparr>, entry3\<lparr>entry_text := utf16 ''Tschuess''\<rparr>, entry3, entry4] \<and>
   index entry2 \<notin> set (map index (parseAPIResponse (utf16 ''[1]\<newline>Hallo\<newline>---\<newline>\<newline>---\<newline>[3]\<newline>Tschuess'') [entry1, entry2, entry3, entry4]))"
  by code_simp

section \<open>Properties of the segmenter\<close>









section \<open>Properties of the retry controller\<close>

lemma translateBatch_fst:
  "fst (translateBatch w b s) =
     (case callGeminiAPI (fetch_reply w (fetches s)) of
        Inl m \<Rightarrow> Inl m
      | Inr response \<Rightarrow> Inr (parseAPIResponse response (entries b)))"
  by (simp add: translateBatch_def do_fetch_def split: sum.splits)

lemma translateBatch_snd:
  "snd (translateBatch w b s) = s\<lparr>now := now s + fetch_ms w (fetches s), fetches := fetches s + 1\<rparr>"
  by (simp add: translateBatch_def do_fetch_def split: sum.splits)

lemma translateBatch_Inr_length:
  "translateBatch w b s = (Inr es, s1) \<Longrightarrow> length es = length (entries b)"
  by (auto simp: translateBatch_def do_fetch_def parseAPIResponse_length split: sum.splits)

lemma translateBatch_fields:
  assumes "translateBatch w b s = (r, s1)"
  shows "fetches s1 = fetches s + 1" and "trace s1 = trace s" and "randoms s1 = randoms s"
    and "now s1 = now s + fetch_ms w (fetches s)"
  using assms translateBatch_snd [of w b s] by auto

lemma backoff_eq:
  "backoff w maxRetries onWaiting attempt s =
     s\<lparr>randoms := randoms s + 1,
       now := now s + total_delay w attempt s,
       trace := trace s @ onWaiting (math_round (total_delay w attempt s / 1000)) (attempt + 1) maxRetries
                  @ [Slept (total_delay w attempt s)]\<rparr>"
  by (simp add: backoff_def math_random_def emit_def delay_def total_delay_def Let_def)

lemma backoff_fields:
  "fetches (backoff w maxRetries onWaiting attempt s) = fetches s"
  "randoms (backoff w maxRetries onWaiting attempt s) = randoms s + 1"
  "now (backoff w maxRetries onWaiting attempt s) = now s + total_delay w attempt s"
  "trace (backoff w maxRetries onWaiting attempt s) =
     trace s @ onWaiting (math_round (total_delay w attempt s / 1000)) (attempt + 1) maxRetries
       @ [Slept (total_delay w attempt s)]"
  by (simp_all add: backoff_eq)

lemma retry_exhausted:
  "\<not> int attempt \<le> maxRetries \<Longrightarrow>
   retry_loop w b maxRetries onWaiting attempt lastError s =
     (Inl (case lastError of None \<Rightarrow> Undefined | Some m \<Rightarrow> Error m), s)"
  by (subst retry_loop.simps) simp

lemma retry_aborted:
  "int attempt \<le> maxRetries \<Longrightarrow> aborted w s \<Longrightarrow>
   retry_loop w b maxRetries onWaiting attempt lastError s = (Inl cancelled, s)"
  by (subst retry_loop.simps) simp

lemma retry_success:
  "int attempt \<le> maxRetries \<Longrightarrow> \<not> aborted w s \<Longrightarrow> translateBatch w b s = (Inr es, s1) \<Longrightarrow>
   retry_loop w b maxRetries onWaiting attempt lastError s = (Inr es, s1)"
  by (subst retry_loop.simps) simp

lemma retry_terminal:
  "int attempt \<le> maxRetries \<Longrightarrow> \<not> aborted w s \<Longrightarrow> translateBatch w b s = (Inl m, s1) \<Longrightarrow>
   \<not> isRetryable m \<Longrightarrow>
   retry_loop w b maxRetries onWaiting attempt lastError s = (Inl (Error m), s1)"
  by (subst retry_loop.simps) simp

lemma retry_again:
  "int attempt < maxRetries \<Longrightarrow> \<not> aborted w s \<Longrightarrow> translateBatch w b s = (Inl m, s1) \<Longrightarrow>
   isRetryable m \<Longrightarrow>
   retry_loop w b maxRetries onWaiting attempt lastError s =
     retry_loop w b maxRetries onWaiting (attempt + 1) (Some m) (backoff w maxRetries onWaiting attempt s1)"
  by (subst retry_loop.simps) simp

lemma retry_last:
  "int attempt = maxRetries \<Longrightarrow> \<not> aborted w s \<Longrightarrow> translateBatch w b s = (Inl m, s1) \<Longrightarrow>
   isRetryable m \<Longrightarrow>
   retry_loop w b maxRetries onWaiting attempt lastError s = (Inl (Error m), s1)"
  by (subst retry_loop.simps) (simp add: retry_exhausted)

text \<open>Case analysis on one round of the loop.\<close>

lemma retry_loop_cases:
  obtains
    (exhausted) "\<not> int attempt \<le> maxRetries"
      "retry_loop w b maxRetries onWaiting attempt lastError s =
         (Inl (case lastError of None \<Rightarrow> Undefined | Some m \<Rightarrow> Error m), s)"
  | (aborted) "int attempt \<le> maxRetries" "aborted w s"
      "retry_loop w b maxRetries onWaiting attempt lastError s = (Inl cancelled, s)"
  | (success) es s1 where "int attempt \<le> maxRetries" "\<not> aborted w s"
      "translateBatch w b s = (Inr es, s1)"
      "retry_loop w b maxRetries onWaiting attempt lastError s = (Inr es, s1)"
  | (terminal) m s1 where "int attempt \<le> maxRetries" "\<not> aborted w s"
      "translateBatch w b s = (Inl m, s1)" "\<not> isRetryable m"
      "retry_loop w b maxRetries onWaiting attempt lastError s = (Inl (Error m), s1)"
  | (again) m s1 where "int attempt < maxRetries" "\<not> aborted w s"
      "translateBatch w b s = (Inl m, s1)" "isRetryable m"
      "retry_loop w b maxRetries onWaiting attempt lastError s =
         retry_loop w b maxRetries onWaiting (attempt + 1) (Some m) (backoff w maxRetries onWaiting attempt s1)"
  | (last) m s1 where "int attempt = maxRetries" "\<not> aborted w s"
      "translateBatch w b s = (Inl m, s1)" "isRetryable m"
      "retry_loop w b maxRetries onWaiting attempt lastError s = (Inl (Error m), s1)"
proof (cases "int attempt \<le> maxRetries")
  case False
  then show ?thesis using exhausted retry_exhausted by blast
next
  case le: True
  show ?thesis
  proof (cases "aborted w s")
    case True
    then show ?thesis using le aborted retry_aborted by blast
  next
    case na: False
    obtain r s1 where tb: "translateBatch w b s = (r, s1)" by (cases "translateBatch w b s")
    show ?thesis
    proof (cases r)
      case (Inr es)
      then show ?thesis using le na tb success retry_success by blast
    next
      case (Inl m)
      show ?thesis
      proof (cases "isRetryable m")
        case False
        then show ?thesis using le na tb Inl terminal retry_terminal by blast
      next
        case True
        show ?thesis
        proof (cases "int attempt < maxRetries")
          case True
          with \<open>isRetryable m\<close> show ?thesis using na tb Inl again retry_again by blast
        next
          case False
          then have "int attempt = maxRetries" using le by simp
          with \<open>isRetryable m\<close> show ?thesis using na tb Inl last retry_last by blast
        qed
      qed
    qed
  qed
qed

lemma retry_loop_length:
  "retry_loop w b maxRetries onWaiting attempt lastError s = (Inr es, s') \<Longrightarrow>
   length es = length (entries b)"
proof (induction "nat (maxRetries + 1 - int attempt)" arbitrary: attempt lastError s)
  case 0
  then have "\<not> int attempt \<le> maxRetries" by simp
  then show ?case using "0.prems" by (simp add: retry_exhausted)
next
  case (Suc n)
  show ?case
  proof (cases rule: retry_loop_cases [where attempt = attempt and maxRetries = maxRetries and w = w and s = s
        and b = b and onWaiting = onWaiting and lastError = lastError])
    case (success es1 s1)
    then show ?thesis using Suc.prems by (auto dest: translateBatch_Inr_length)
  next
    case (again m s1)
    have n: "n = nat (maxRetries + 1 - int (attempt + 1))" using Suc.hyps(2) by simp
    have "retry_loop w b maxRetries onWaiting (attempt + 1) (Some m)
            (backoff w maxRetries onWaiting attempt s1) = (Inr es, s')"
      using Suc.prems unfolding again(5) .
    from Suc.hyps(1) [OF n this] show ?thesis .
  qed (use Suc.prems in simp_all)
qed

lemma retry_loop_fetches:
  "retry_loop w b maxRetries onWaiting attempt lastError s = (r, s') \<Longrightarrow>
   fetches s \<le> fetches s' \<and> fetches s' \<le> fetches s + nat (maxRetries + 1 - int attempt)"
proof (induction "nat (maxRetries + 1 - int attempt)" arbitrary: attempt lastError s)
  case 0
  then have "\<not> int attempt \<le> maxRetries" by simp
  then show ?case using "0.prems" by (simp add: retry_exhausted)
next
  case (Suc n)
  show ?case
  proof (cases rule: retry_loop_cases [where attempt = attempt and maxRetries = maxRetries and w = w and s = s
        and b = b and onWaiting = onWaiting and lastError = lastError])
    case (again m s1)
    have n: "n = nat (maxRetries + 1 - int (attempt + 1))" using Suc.hyps(2) by simp
    have "retry_loop w b maxRetries onWaiting (attempt + 1) (Some m)
            (backoff w maxRetries onWaiting attempt s1) = (r, s')"
      using Suc.prems unfolding again(5) .
    from Suc.hyps(1) [OF n this]
    have "fetches (backoff w maxRetries onWaiting attempt s1) \<le> fetches s'"
      and "fetches s' \<le> fetches (backoff w maxRetries onWaiting attempt s1) + nat (maxRetries + 1 - int (attempt + 1))"
      by simp_all
    moreover have "fetches (backoff w maxRetries onWaiting attempt s1) = fetches s + 1"
      using translateBatch_fields(1) [OF again(3)] by (simp add: backoff_fields)
    ultimately show ?thesis
      using again(1) by simp
  next
    case (success es1 s1)
    then show ?thesis using Suc.prems Suc.hyps(2) translateBatch_fields(1) [OF success(3)] by auto
  next
    case (terminal m s1)
    then show ?thesis using Suc.prems Suc.hyps(2) translateBatch_fields(1) [OF terminal(3)] by auto
  next
    case (last m s1)
    then show ?thesis using Suc.prems Suc.hyps(2) translateBatch_fields(1) [OF last(3)] by auto
  qed (use Suc.prems in auto)
qed

lemma retry_loop_trace:
  "retry_loop w b maxRetries onWaiting attempt lastError s = (r, s') \<Longrightarrow>
   \<exists>evs. trace s' = trace s @ evs \<and>
     (\<forall>e \<in> set evs. (\<exists>a k m. e \<in> set (onWaiting a k m)) \<or> (\<exists>d. e = Slept d))"
proof (induction "nat (maxRetries + 1 - int attempt)" arbitrary: attempt lastError s)
  case 0
  then have "\<not> int attempt \<le> maxRetries" by simp
  then show ?case using "0.prems" by (simp add: retry_exhausted)
next
  case (Suc n)
  show ?case
  proof (cases rule: retry_loop_cases [where attempt = attempt and maxRetries = maxRetries and w = w and s = s
        and b = b and onWaiting = onWaiting and lastError = lastError])
    case (again m s1)
    have n: "n = nat (maxRetries + 1 - int (attempt + 1))" using Suc.hyps(2) by simp
    have "retry_loop w b maxRetries onWaiting (attempt + 1) (Some m)
            (backoff w maxRetries onWaiting attempt s1) = (r, s')"
      using Suc.prems unfolding again(5) .
    from Suc.hyps(1) [OF n this] obtain evs where
      evs: "trace s' = trace (backoff w maxRetries onWaiting attempt s1) @ evs"
        "\<forall>e \<in> set evs. (\<exists>a k m. e \<in> set (onWaiting a k m)) \<or> (\<exists>d. e = Slept d)"
      by blast
    let ?evs0 = "onWaiting (math_round (total_delay w attempt s1 / 1000)) (attempt + 1) maxRetries
                   @ [Slept (total_delay w attempt s1)]"
    have "trace s' = trace s @ (?evs0 @ evs)"
      using evs(1) translateBatch_fields(2) [OF again(3)] by (simp add: backoff_fields)
    moreover have "\<forall>e \<in> set (?evs0 @ evs). (\<exists>a k m. e \<in> set (onWaiting a k m)) \<or> (\<exists>d. e = Slept d)"
      using evs(2) by auto
    ultimately show ?thesis by blast
  next
    case (success es1 s1)
    then show ?thesis using Suc.prems translateBatch_fields(2) [OF success(3)] by auto
  next
    case (terminal m s1)
    then show ?thesis using Suc.prems translateBatch_fields(2) [OF terminal(3)] by auto
  next
    case (last m s1)
    then show ?thesis using Suc.prems translateBatch_fields(2) [OF last(3)] by auto
  qed (use Suc.prems in auto)
qed

lemma not_aborted_never: "abort_at w = None \<Longrightarrow> \<not> aborted w s"
  by (simp add: aborted_def)

lemma retry_all_fail:
  assumes fail: "\<forall>n. \<exists>m. callGeminiAPI (fetch_reply w n) = Inl m \<and> isRetryable m"
    and never: "abort_at w = None"
  shows "int attempt \<le> maxRetries \<Longrightarrow>
    \<exists>m s'. retry_loop w b maxRetries record_waiting attempt lastError s = (Inl (Error m), s') \<and>
      callGeminiAPI (fetch_reply w (fetches s + nat (maxRetries - int attempt))) = Inl m \<and>
      fetches s' = fetches s + nat (maxRetries - int attempt) + 1 \<and>
      length (filter is_waiting (trace s')) =
        length (filter is_waiting (trace s)) + nat (maxRetries - int attempt)"
proof (induction "nat (maxRetries - int attempt)" arbitrary: attempt lastError s)
  case 0
  then have eq: "int attempt = maxRetries" by simp
  obtain m where m: "callGeminiAPI (fetch_reply w (fetches s)) = Inl m" "isRetryable m"
    using fail by blast
  obtain r s1 where tb: "translateBatch w b s = (r, s1)" by (cases "translateBatch w b s")
  have r: "r = Inl m" using translateBatch_fst [of w b s] tb m(1) by simp
  have "retry_loop w b maxRetries record_waiting attempt lastError s = (Inl (Error m), s1)"
    using retry_last [OF eq not_aborted_never [OF never] tb [unfolded r] m(2)] .
  then show ?case
    using m(1) eq translateBatch_fields [OF tb] by simp
next
  case (Suc n)
  then have lt: "int attempt < maxRetries" by simp
  obtain m where m: "callGeminiAPI (fetch_reply w (fetches s)) = Inl m" "isRetryable m"
    using fail by blast
  obtain r s1 where tb: "translateBatch w b s = (r, s1)" by (cases "translateBatch w b s")
  have r: "r = Inl m" using translateBatch_fst [of w b s] tb m(1) by simp
  let ?s2 = "backoff w maxRetries record_waiting attempt s1"
  have step: "retry_loop w b maxRetries record_waiting attempt lastError s =
      retry_loop w b maxRetries record_waiting (attempt + 1) (Some m) ?s2"
    using retry_again [OF lt not_aborted_never [OF never] tb [unfolded r] m(2)] .
  have n: "n = nat (maxRetries - int (attempt + 1))" using Suc.hyps(2) by simp
  have le: "int (attempt + 1) \<le> maxRetries" using lt by simp
  from Suc.hyps(1) [OF n le, of "Some m" ?s2] obtain m' s' where
    res: "retry_loop w b maxRetries record_waiting (attempt + 1) (Some m) ?s2 = (Inl (Error m'), s')"
      "callGeminiAPI (fetch_reply w (fetches ?s2 + nat (maxRetries - int (attempt + 1)))) = Inl m'"
      "fetches s' = fetches ?s2 + nat (maxRetries - int (attempt + 1)) + 1"
      "length (filter is_waiting (trace s')) =
         length (filter is_waiting (trace ?s2)) + nat (maxRetries - int (attempt + 1))"
    by blast
  have f2: "fetches ?s2 = fetches s + 1"
    using translateBatch_fields(1) [OF tb] by (simp add: backoff_fields)
  have idx: "fetches ?s2 + nat (maxRetries - int (attempt + 1)) = fetches s + nat (maxRetries - int attempt)"
    using f2 lt by simp
  have t2: "length (filter is_waiting (trace ?s2)) = length (filter is_waiting (trace s)) + 1"
    using translateBatch_fields(2) [OF tb] by (simp add: backoff_fields record_waiting_def)
  show ?case
    using step res idx t2 lt by auto
qed


lemma isRetryable_fixed:
  "\<not> isRetryable (utf16 ''Invalid API key. Please check your Gemini API key.'')"
  "\<not> isRetryable (utf16 ''Gemini API server error. Please try again later.'')"
  "\<not> isRetryable (utf16 ''Response blocked due to recitation/copyright concerns'')"
  "isRetryable (utf16 ''Rate limit exceeded. Please wait a moment and try again.'')"
  "isRetryable (utf16 ''No response from Gemini API - empty candidates'')"
  by (simp_all add: isRetryable_def utf16_def)




lemma callGeminiAPI_429:
  "status r = 429 \<Longrightarrow>
   callGeminiAPI (FetchResolves r) = Inl (utf16 ''Rate limit exceeded. Please wait a moment and try again.'')"
  by (simp add: callGeminiAPI_def ok_def http_error_def)

lemma translateBatch_eq:
  "translateBatch w b s =
     (case callGeminiAPI (fetch_reply w (fetches s)) of
        Inl m \<Rightarrow> Inl m
      | Inr response \<Rightarrow> Inr (parseAPIResponse response (entries b)),
      s\<lparr>now := now s + fetch_ms w (fetches s), fetches := fetches s + 1\<rparr>)"
  using translateBatch_fst [of w b s] translateBatch_snd [of w b s]
  by (cases "translateBatch w b s") simp






text \<open>
  C9. Each call of the operation \<open>translateBatch\<close> makes one fetch, so \<open>fetches\<close> counts
  the calls. For \<open>maxRetries \<ge> 0\<close> the controller calls the operation at most
  \<open>maxRetries + 1\<close> times. If every call fails with a retryable error and the signal never
  aborts, there are exactly \<open>maxRetries + 1\<close> calls and \<open>maxRetries\<close> calls of
  \<open>onWaiting\<close>, and the controller fails with the error of the last call.
\<close>

theorem translateBatchWithRetry_attempts:
  "0 \<le> maxRetries \<longrightarrow>
     fetches (snd (translateBatchWithRetry w b maxRetries onWaiting s)) \<le> fetches s + nat maxRetries + 1 \<and>
     (abort_at w = None \<and> (\<forall>n. \<exists>m. callGeminiAPI (fetch_reply w n) = Inl m \<and> isRetryable m) \<longrightarrow>
        (\<exists>m s'. translateBatchWithRetry w b maxRetries record_waiting s = (Inl (Error m), s') \<and>
           callGeminiAPI (fetch_reply w (fetches s + nat maxRetries)) = Inl m \<and>
           fetches s' = fetches s + nat maxRetries + 1 \<and>
           length (filter is_waiting (trace s')) = length (filter is_waiting (trace s)) + nat maxRetries))"
proof (intro impI conjI)
  assume mr: "0 \<le> maxRetries"
  obtain r s' where res: "retry_loop w b maxRetries onWaiting 0 None s = (r, s')"
    by (cases "retry_loop w b maxRetries onWaiting 0 None s")
  have "fetches s' \<le> fetches s + nat (maxRetries + 1 - int 0)"
    using retry_loop_fetches [OF res] by simp
  then show "fetches (snd (translateBatchWithRetry w b maxRetries onWaiting s)) \<le> fetches s + nat maxRetries + 1"
    using res mr by (simp add: translateBatchWithRetry_def nat_add_distrib)
next
  assume mr: "0 \<le> maxRetries"
    and env: "abort_at w = None \<and> (\<forall>n. \<exists>m. callGeminiAPI (fetch_reply w n) = Inl m \<and> isRetryable m)"
  have le: "int 0 \<le> maxRetries" using mr by simp
  show "\<exists>m s'. translateBatchWithRetry w b maxRetries record_waiting s = (Inl (Error m), s') \<and>
           callGeminiAPI (fetch_reply w (fetches s + nat maxRetries)) = Inl m \<and>
           fetches s' = fetches s + nat maxRetries + 1 \<and>
           length (filter is_waiting (trace s')) = length (filter is_waiting (trace s)) + nat maxRetries"
    using retry_all_fail [OF conjunct2 [OF env] conjunct1 [OF env] le, of b None s]
    by (simp add: translateBatchWithRetry_def)
qed

theorem translateBatchWithRetry_attempts_witness:
  "(0::int) \<le> 2 \<and> abort_at always_limited = None \<and>
   (\<forall>n. callGeminiAPI (fetch_reply always_limited n) =
      Inl (utf16 ''Rate limit exceeded. Please wait a moment and try again.'')) \<and>
   isRetryable (utf16 ''Rate limit exceeded. Please wait a moment and try again.'') \<and>
   fst (translateBatchWithRetry always_limited batch1 2 record_waiting start) =
     Inl (Error (utf16 ''Rate limit exceeded. Please wait a moment and try again.'')) \<and>
   fetches (snd (translateBatchWithRetry always_limited batch1 2 record_waiting start)) = 3 \<and>
   length (filter is_waiting (trace (snd (translateBatchWithRetry always_limited batch1 2 record_waiting start)))) = 2"
proof -
  let ?limit = "utf16 ''Rate limit exceeded. Please wait a moment and try again.''"
  have never: "abort_at always_limited = None"
    by (simp add: always_limited_def)
  have call: "\<forall>n. callGeminiAPI (fetch_reply always_limited n) = Inl ?limit"
    by (simp add: always_limited_def status_reply_def callGeminiAPI_def ok_def http_error_def)
  have r: "isRetryable ?limit"
    by (rule isRetryable_fixed)
  have "\<forall>n. \<exists>m. callGeminiAPI (fetch_reply always_limited n) = Inl m \<and> isRetryable m"
    using call r by simp
  then show ?thesis
    using translateBatchWithRetry_attempts [of 2 always_limited batch1 record_waiting start] never call r
    by (auto simp: start_def)
qed






section \<open>Properties of the orchestrator\<close>

lemma loop_done:
  "\<not> i < length batches \<Longrightarrow> translate_loop w batches i running s = (Inr running, s)"
  by (subst translate_loop.simps) simp

lemma loop_aborted:
  "i < length batches \<Longrightarrow> aborted w s \<Longrightarrow> translate_loop w batches i running s = (Inl cancelled, s)"
  by (subst translate_loop.simps) simp

lemma loop_failed:
  "i < length batches \<Longrightarrow> \<not> aborted w s \<Longrightarrow>
   translateBatchWithRetry w (batches ! i) 5 (waiting_callback batches i) (before_batch batches i s) =
     (Inl err, s3) \<Longrightarrow>
   translate_loop w batches i running s = (Inl err, emit [OnBatchComplete i running True] s3)"
  by (subst translate_loop.simps) simp

lemma loop_next:
  "i < length batches \<Longrightarrow> \<not> aborted w s \<Longrightarrow>
   translateBatchWithRetry w (batches ! i) 5 (waiting_callback batches i) (before_batch batches i s) =
     (Inr translatedEntries, s3) \<Longrightarrow>
   translate_loop w batches i running s =
     translate_loop w batches (i + 1) (running @ translatedEntries)
       (after_batch batches i translatedEntries (running @ translatedEntries) s3)"
  by (subst translate_loop.simps) simp

lemma translate_loop_cases:
  obtains
    (finished) "\<not> i < length batches" "translate_loop w batches i running s = (Inr running, s)"
  | (aborted) "i < length batches" "aborted w s"
      "translate_loop w batches i running s = (Inl cancelled, s)"
  | (failed) err s3 where "i < length batches" "\<not> aborted w s"
      "translateBatchWithRetry w (batches ! i) 5 (waiting_callback batches i) (before_batch batches i s) =
         (Inl err, s3)"
      "translate_loop w batches i running s = (Inl err, emit [OnBatchComplete i running True] s3)"
  | (continued) translatedEntries s3 where "i < length batches" "\<not> aborted w s"
      "translateBatchWithRetry w (batches ! i) 5 (waiting_callback batches i) (before_batch batches i s) =
         (Inr translatedEntries, s3)"
      "translate_loop w batches i running s =
         translate_loop w batches (i + 1) (running @ translatedEntries)
           (after_batch batches i translatedEntries (running @ translatedEntries) s3)"
proof (cases "i < length batches")
  case False
  then show ?thesis using finished loop_done by blast
next
  case lt: True
  show ?thesis
  proof (cases "aborted w s")
    case True
    then show ?thesis using lt aborted loop_aborted by blast
  next
    case na: False
    obtain r s3 where call: "translateBatchWithRetry w (batches ! i) 5 (waiting_callback batches i)
        (before_batch batches i s) = (r, s3)"
      by (cases "translateBatchWithRetry w (batches ! i) 5 (waiting_callback batches i)
        (before_batch batches i s)")
    show ?thesis
    proof (cases r)
      case (Inl err)
      then show ?thesis using lt na call failed loop_failed by blast
    next
      case (Inr translatedEntries)
      then show ?thesis using lt na call continued loop_next by blast
    qed
  qed
qed

lemma before_batch_fields:
  "trace (before_batch batches i s) =
     trace s @ [OnProgress i (length batches) (length (entries (batches ! i))) (Translating (i + 1) (length batches)),
                OnLog Request (Sending (length (entries (batches ! i))) (take 3 (entries (batches ! i))))
                  (Some (i + 1, length batches))]"
  "now (before_batch batches i s) = now s"
  "fetches (before_batch batches i s) = fetches s"
  "randoms (before_batch batches i s) = randoms s"
  by (simp_all add: before_batch_def emit_def Let_def)

lemma after_batch_fields:
  "trace (after_batch batches i translatedEntries running s) =
     trace s @ [OnLog Response (Received (length translatedEntries) (take 3 translatedEntries))
                  (Some (i + 1, length batches)),
                OnBatchComplete (i + 1) running False,
                OnProgress (i + 1) (length batches) (length (entries (batches ! i)))
                  (Completed (i + 1) (length batches))]
       @ (if i < length batches - 1
          then [OnProgress (i + 1) (length batches) 0 WaitingBeforeNext, Slept BATCH_DELAY] else [])"
  "now (after_batch batches i translatedEntries running s) =
     (if i < length batches - 1 then now s + BATCH_DELAY else now s)"
  "fetches (after_batch batches i translatedEntries running s) = fetches s"
  by (simp_all add: after_batch_def emit_def delay_def Let_def)

lemma batch_attempt_trace:
  assumes "translateBatchWithRetry w b maxRetries (waiting_callback batches i) s = (r, s3)"
  shows "\<exists>evs. trace s3 = trace s @ evs \<and> (\<forall>e \<in> set evs. \<not> is_checkpoint e)"
proof -
  obtain evs where evs: "trace s3 = trace s @ evs"
    "\<forall>e \<in> set evs. (\<exists>a k m. e \<in> set (waiting_callback batches i a k m)) \<or> (\<exists>d. e = Slept d)"
    using retry_loop_trace [OF assms [unfolded translateBatchWithRetry_def]] by blast
  have "\<not> is_checkpoint e" if "e \<in> set evs" for e
    using evs(2) that by (auto simp: waiting_callback_def Let_def)
  then show ?thesis using evs(1) by blast
qed

lemma batch_attempt_length:
  "translateBatchWithRetry w b maxRetries onWaiting s = (Inr es, s3) \<Longrightarrow> length es = length (entries b)"
  unfolding translateBatchWithRetry_def by (rule retry_loop_length)

lemma entry_count_take_Suc:
  "i < length batches \<Longrightarrow>
   entry_count (take (Suc i) batches) = entry_count (take i batches) + length (entries (batches ! i))"
  by (simp add: entry_count_def take_Suc_conv_app_nth)

lemma loop_next_trace:
  assumes "translateBatchWithRetry w (batches ! i) 5 (waiting_callback batches i) (before_batch batches i s) =
     (Inr translatedEntries, s3)"
  shows "\<exists>evs0. trace (after_batch batches i translatedEntries running s3) = trace s @ evs0 \<and>
     (\<forall>k es f. OnBatchComplete k es f \<in> set evs0 \<longleftrightarrow> k = i + 1 \<and> es = running \<and> f = False)"
proof -
  obtain evs where evs: "trace s3 = trace (before_batch batches i s) @ evs"
    "\<forall>e \<in> set evs. \<not> is_checkpoint e"
    using batch_attempt_trace [OF assms] by blast
  define pre where "pre =
    [OnProgress i (length batches) (length (entries (batches ! i))) (Translating (i + 1) (length batches)),
     OnLog Request (Sending (length (entries (batches ! i))) (take 3 (entries (batches ! i))))
       (Some (i + 1, length batches))]"
  define post where "post =
    [OnLog Response (Received (length translatedEntries) (take 3 translatedEntries))
       (Some (i + 1, length batches)),
     OnBatchComplete (i + 1) running False,
     OnProgress (i + 1) (length batches) (length (entries (batches ! i)))
       (Completed (i + 1) (length batches))]
    @ (if i < length batches - 1
       then [OnProgress (i + 1) (length batches) 0 WaitingBeforeNext, Slept BATCH_DELAY] else [])"
  have tr: "trace (after_batch batches i translatedEntries running s3) = trace s @ (pre @ evs @ post)"
    using evs(1) by (simp add: pre_def post_def after_batch_fields before_batch_fields)
  have p1: "OnBatchComplete k es f \<notin> set pre" for k es f
    by (simp add: pre_def)
  have p2: "OnBatchComplete k es f \<notin> set evs" for k es f
    using evs(2) by force
  have p3: "OnBatchComplete k es f \<in> set post \<longleftrightarrow> k = i + 1 \<and> es = running \<and> f = False" for k es f
    by (simp add: post_def)
  have "OnBatchComplete k es f \<in> set (pre @ evs @ post) \<longleftrightarrow> k = i + 1 \<and> es = running \<and> f = False"
    for k es f
    using p1 [of k es f] p2 [of k es f] p3 [of k es f] by simp
  with tr show ?thesis by blast
qed

lemma loop_failed_trace:
  assumes "translateBatchWithRetry w (batches ! i) 5 (waiting_callback batches i) (before_batch batches i s) =
     (Inl err, s3)"
  shows "\<exists>evs0. trace (emit [OnBatchComplete i running True] s3) = trace s @ evs0 \<and>
     evs0 \<noteq> [] \<and> last evs0 = OnBatchComplete i running True \<and>
     (\<forall>k es f. OnBatchComplete k es f \<in> set evs0 \<longleftrightarrow> k = i \<and> es = running \<and> f = True)"
proof -
  obtain evs where evs: "trace s3 = trace (before_batch batches i s) @ evs"
    "\<forall>e \<in> set evs. \<not> is_checkpoint e"
    using batch_attempt_trace [OF assms] by blast
  define pre where "pre =
    [OnProgress i (length batches) (length (entries (batches ! i))) (Translating (i + 1) (length batches)),
     OnLog Request (Sending (length (entries (batches ! i))) (take 3 (entries (batches ! i))))
       (Some (i + 1, length batches))]"
  have tr: "trace (emit [OnBatchComplete i running True] s3) =
      trace s @ (pre @ evs @ [OnBatchComplete i running True])"
    using evs(1) by (simp add: pre_def emit_def before_batch_fields)
  have p1: "OnBatchComplete k es f \<notin> set pre" for k es f
    by (simp add: pre_def)
  have p2: "OnBatchComplete k es f \<notin> set evs" for k es f
    using evs(2) by force
  have "OnBatchComplete k es f \<in> set (pre @ evs @ [OnBatchComplete i running True]) \<longleftrightarrow>
      k = i \<and> es = running \<and> f = True" for k es f
    using p1 [of k es f] p2 [of k es f] by simp
  moreover have "pre @ evs @ [OnBatchComplete i running True] \<noteq> []"
    and "last (pre @ evs @ [OnBatchComplete i running True]) = OnBatchComplete i running True"
    by simp_all
  ultimately show ?thesis using tr by blast
qed

lemma translate_loop_invariant:
  "translate_loop w batches i running s = (res, s') \<Longrightarrow>
   length running = entry_count (take i batches) \<Longrightarrow>
   \<exists>evs. trace s' = trace s @ evs \<and>
     (\<forall>k es f. OnBatchComplete k es f \<in> set evs \<longrightarrow> length es = entry_count (take k batches))"
proof (induction "length batches - i" arbitrary: i running s)
  case 0
  then have "\<not> i < length batches" by simp
  then show ?case using "0.prems" by (simp add: loop_done)
next
  case (Suc n)
  show ?case
  proof (cases rule: translate_loop_cases [where i = i and batches = batches and w = w and s = s
        and running = running])
    case finished
    then show ?thesis using Suc.prems by simp
  next
    case aborted
    then show ?thesis using Suc.prems by simp
  next
    case (failed err sb)
    obtain evs0 where evs0: "trace (emit [OnBatchComplete i running True] sb) = trace s @ evs0"
      "\<forall>k es f. OnBatchComplete k es f \<in> set evs0 \<longleftrightarrow> k = i \<and> es = running \<and> f = True"
      using loop_failed_trace [OF failed(3)] by blast
    have "s' = emit [OnBatchComplete i running True] sb"
      using Suc.prems(1) failed(4) by simp
    then show ?thesis
      using evs0 Suc.prems(2) by auto
  next
    case (continued translatedEntries sb)
    define run1 where "run1 = running @ translatedEntries"
    define s7 where "s7 = after_batch batches i translatedEntries run1 sb"
    obtain evs0 where evs0: "trace s7 = trace s @ evs0"
      "\<forall>k es f. OnBatchComplete k es f \<in> set evs0 \<longleftrightarrow> k = i + 1 \<and> es = run1 \<and> f = False"
      using loop_next_trace [OF continued(3), of run1] unfolding s7_def by blast
    have len: "length run1 = entry_count (take (i + 1) batches)"
      using batch_attempt_length [OF continued(3)] Suc.prems(2) continued(1)
      by (simp add: entry_count_take_Suc run1_def)
    have n: "n = length batches - (i + 1)" using Suc.hyps(2) by simp
    have rec: "translate_loop w batches (i + 1) run1 s7 = (res, s')"
      using Suc.prems(1) unfolding continued(4) run1_def s7_def .
    from Suc.hyps(1) [OF n rec len] obtain evs1 where evs1: "trace s' = trace s7 @ evs1"
      "\<forall>k es f. OnBatchComplete k es f \<in> set evs1 \<longrightarrow> length es = entry_count (take k batches)"
      by blast
    have "trace s' = trace s @ (evs0 @ evs1)"
      using evs1(1) evs0(1) by simp
    moreover have "\<forall>k es f. OnBatchComplete k es f \<in> set (evs0 @ evs1) \<longrightarrow>
        length es = entry_count (take k batches)"
      using evs0(2) evs1(2) len by auto
    ultimately show ?thesis by blast
  qed
qed

text \<open>
  C8. If the run starts with as many entries as the batches before \<open>startFromBatch\<close>
  hold (none, for a start at 0), then at every checkpoint the run emits, for a success or
  for a failure, the number of entries reported equals the number of entries of the
  batches before the reported \<open>completedBatches\<close>.
\<close>

theorem checkpoint_invariant:
  "length existingEntries = entry_count (take startFromBatch batches) \<longrightarrow>
     (\<exists>evs. trace (snd (translateAllBatches w batches startFromBatch existingEntries s)) = trace s @ evs \<and>
        (\<forall>k es f. OnBatchComplete k es f \<in> set evs \<longrightarrow> length es = entry_count (take k batches)))"
proof
  assume len: "length existingEntries = entry_count (take startFromBatch batches)"
  let ?s0 = "if 0 < startFromBatch
             then emit [OnLog Response (Resuming (startFromBatch + 1) (length existingEntries)) None] s
             else s"
  obtain res s' where run: "translate_loop w batches startFromBatch existingEntries ?s0 = (res, s')"
    by (cases "translate_loop w batches startFromBatch existingEntries ?s0")
  obtain evs where evs: "trace s' = trace ?s0 @ evs"
    "\<forall>k es f. OnBatchComplete k es f \<in> set evs \<longrightarrow> length es = entry_count (take k batches)"
    using translate_loop_invariant [OF run len] by blast
  let ?pre = "if 0 < startFromBatch
              then [OnLog Response (Resuming (startFromBatch + 1) (length existingEntries)) None] else []"
  have "trace s' = trace s @ (?pre @ evs)"
    using evs(1) by (simp add: emit_def)
  moreover have "\<forall>k es f. OnBatchComplete k es f \<in> set (?pre @ evs) \<longrightarrow>
      length es = entry_count (take k batches)"
    using evs(2) by simp
  moreover have "snd (translateAllBatches w batches startFromBatch existingEntries s) = s'"
    using run by (simp add: translateAllBatches_def Let_def)
  ultimately show "\<exists>evs. trace (snd (translateAllBatches w batches startFromBatch existingEntries s)) = trace s @ evs \<and>
        (\<forall>k es f. OnBatchComplete k es f \<in> set evs \<longrightarrow> length es = entry_count (take k batches))"
    by blast
qed

lemma failing_second_run:
  "translateAllBatches failing_second [batch1, batch2] 0 [] start =
     (Inl (Error (utf16 ''Gemini API server error. Please try again later.'')),
      \<lparr>now = 4100, fetches = 2, randoms = 0,
       trace =
         [OnProgress 0 2 1 (Translating 1 2),
          OnLog Request (Sending 1 [entry1]) (Some (1, 2)),
          OnLog Response (Received 1 [entry1\<lparr>entry_text := utf16 ''Hallo''\<rparr>]) (Some (1, 2)),
          OnBatchComplete 1 [entry1\<lparr>entry_text := utf16 ''Hallo''\<rparr>] False,
          OnProgress 1 2 1 (Completed 1 2),
          OnProgress 1 2 0 WaitingBeforeNext,
          Slept 4000,
          OnProgress 1 2 1 (Translating 2 2),
          OnLog Request (Sending 1 [entry2]) (Some (2, 2)),
          OnBatchComplete 1 [entry1\<lparr>entry_text := utf16 ''Hallo''\<rparr>] True]\<rparr>)"
  by code_simp

theorem checkpoint_invariant_witness:
  "length ([] :: entry list) = entry_count (take 0 [batch1, batch2]) \<and>
   OnBatchComplete 1 [entry1\<lparr>entry_text := utf16 ''Hallo''\<rparr>] True \<in>
     set (trace (snd (translateAllBatches failing_second [batch1, batch2] 0 [] start))) \<and>
   length [entry1\<lparr>entry_text := utf16 ''Hallo''\<rparr>] = entry_count (take 1 [batch1, batch2])"
proof -
  have h: "length ([] :: entry list) = entry_count (take 0 [batch1, batch2])"
    by (simp add: entry_count_def)
  have mem: "OnBatchComplete 1 [entry1\<lparr>entry_text := utf16 ''Hallo''\<rparr>] True \<in>
     set (trace (snd (translateAllBatches failing_second [batch1, batch2] 0 [] start)))"
    by (simp add: failing_second_run)
  obtain evs where evs:
    "trace (snd (translateAllBatches failing_second [batch1, batch2] 0 [] start)) = trace start @ evs"
    "\<forall>k es f. OnBatchComplete k es f \<in> set evs \<longrightarrow> length es = entry_count (take k [batch1, batch2])"
    using checkpoint_invariant [of "[]" 0 "[batch1, batch2]" failing_second start] h by blast
  have "evs = trace (snd (translateAllBatches failing_second [batch1, batch2] 0 [] start))"
    using evs(1) by (simp add: start_def)
  then have "length [entry1\<lparr>entry_text := utf16 ''Hallo''\<rparr>] = entry_count (take 1 [batch1, batch2])"
    using evs(2) mem by blast
  then show ?thesis using h mem by blast
qed






lemma aborted_after: "abort_at w = Some t \<Longrightarrow> t \<le> now s \<Longrightarrow> aborted w s"
  by (simp add: aborted_def)

lemma backoff_wait_cancelled:
  assumes "int attempt < maxRetries" and "\<not> aborted w s"
    and "translateBatch w b s = (Inl m, s')" and "isRetryable m"
    and "abort_at w = Some t"
    and "t \<le> now s' + (15000 * 2 ^ attempt + random w (randoms s') * 2000)"
  shows "retry_loop w b maxRetries onWaiting attempt lastError s =
           (Inl cancelled, backoff w maxRetries onWaiting attempt s')"
proof -
  have ab: "aborted w (backoff w maxRetries onWaiting attempt s')"
    using assms(6) by (intro aborted_after [OF assms(5)]) (simp add: backoff_fields total_delay_def)
  have le: "int (attempt + 1) \<le> maxRetries" using assms(1) by simp
  show ?thesis
    unfolding retry_again [OF assms(1-4)] by (rule retry_aborted [OF le ab])
qed

lemma batch_delay_cancelled:
  assumes "i + 1 < length batches" and "\<not> aborted w s"
    and "translateBatchWithRetry w (batches ! i) 5 (waiting_callback batches i) (before_batch batches i s) =
           (Inr translatedEntries, sb)"
    and "abort_at w = Some t" and "t \<le> now sb + BATCH_DELAY"
  shows "translate_loop w batches i running s =
           (Inl cancelled, after_batch batches i translatedEntries (running @ translatedEntries) sb)"
proof -
  have lt: "i < length batches" using assms(1) by simp
  have "i < length batches - 1" using assms(1) by simp
  then have "now (after_batch batches i translatedEntries (running @ translatedEntries) sb) = now sb + BATCH_DELAY"
    by (simp only: after_batch_fields if_True)
  then have ab: "aborted w (after_batch batches i translatedEntries (running @ translatedEntries) sb)"
    using assms(5) by (intro aborted_after [OF assms(4)]) simp
  show ?thesis
    unfolding loop_next [OF lt assms(2,3)] by (rule loop_aborted [OF assms(1) ab])
qed

text \<open>
  C6 (as the code has it). \<open>delay\<close> takes no signal: it ends when its time has passed,
  whatever the signal does. When the signal aborts during the backoff wait of the retry
  controller, or during the wait between two batches, the wait runs to its end; the
  cancellation is seen by the next abort check, at the end of the wait, and the run then
  fails with the cancellation, without a further fetch.
\<close>

theorem delays_run_to_completion:
  "delay ms s = s\<lparr>now := now s + ms, trace := trace s @ [Slept ms]\<rparr> \<and>
   (int attempt < maxRetries \<and> \<not> aborted w s \<and> translateBatch w b s = (Inl m, s') \<and> isRetryable m \<and>
    abort_at w = Some t \<and> now s' < t \<and>
    t \<le> now s' + (15000 * 2 ^ attempt + random w (randoms s') * 2000) \<longrightarrow>
      (\<exists>sf. retry_loop w b maxRetries onWaiting attempt lastError s = (Inl cancelled, sf) \<and>
            now sf = now s' + (15000 * 2 ^ attempt + random w (randoms s') * 2000) \<and>
            fetches sf = fetches s')) \<and>
   (i + 1 < length batches \<and> \<not> aborted w s \<and>
    translateBatchWithRetry w (batches ! i) 5 (waiting_callback batches i) (before_batch batches i s) =
      (Inr translatedEntries, sb) \<and>
    abort_at w = Some t \<and> now sb < t \<and> t \<le> now sb + BATCH_DELAY \<longrightarrow>
      (\<exists>sf. translate_loop w batches i running s = (Inl cancelled, sf) \<and>
            now sf = now sb + BATCH_DELAY \<and> fetches sf = fetches sb))"
proof (intro conjI impI; (elim conjE)?)
  show "delay ms s = s\<lparr>now := now s + ms, trace := trace s @ [Slept ms]\<rparr>"
    by (simp add: delay_def)
next
  assume a: "int attempt < maxRetries" "\<not> aborted w s" "translateBatch w b s = (Inl m, s')"
    "isRetryable m" "abort_at w = Some t"
    "t \<le> now s' + (15000 * 2 ^ attempt + random w (randoms s') * 2000)"
  have "retry_loop w b maxRetries onWaiting attempt lastError s =
           (Inl cancelled, backoff w maxRetries onWaiting attempt s')"
    by (rule backoff_wait_cancelled [OF a])
  then show "\<exists>sf. retry_loop w b maxRetries onWaiting attempt lastError s = (Inl cancelled, sf) \<and>
            now sf = now s' + (15000 * 2 ^ attempt + random w (randoms s') * 2000) \<and>
            fetches sf = fetches s'"
    by (simp add: backoff_fields total_delay_def)
next
  assume a: "i + 1 < length batches" "\<not> aborted w s"
    "translateBatchWithRetry w (batches ! i) 5 (waiting_callback batches i) (before_batch batches i s) =
      (Inr translatedEntries, sb)"
    "abort_at w = Some t" "t \<le> now sb + BATCH_DELAY"
  have "translate_loop w batches i running s =
           (Inl cancelled, after_batch batches i translatedEntries (running @ translatedEntries) sb)"
    by (rule batch_delay_cancelled [OF a])
  moreover have "i < length batches - 1" using a(1) by simp
  then have "now (after_batch batches i translatedEntries (running @ translatedEntries) sb) = now sb + BATCH_DELAY"
    by (simp only: after_batch_fields if_True)
  ultimately show "\<exists>sf. translate_loop w batches i running s = (Inl cancelled, sf) \<and>
            now sf = now sb + BATCH_DELAY \<and> fetches sf = fetches sb"
    by (simp add: after_batch_fields(3))
qed

lemma limited_then_abort_run:
  "translateBatchWithRetry limited_then_abort batch1 5 record_waiting start =
     (Inl cancelled,
      \<lparr>now = 16050, fetches = 1, randoms = 1, trace = [OnWaiting 16 1 5, Slept 16000]\<rparr>)"
  by code_simp

lemma aborting_midway_run:
  "translateAllBatches aborting_midway [batch1, batch2] 0 [] start =
     (Inl cancelled,
      \<lparr>now = 4050, fetches = 1, randoms = 0,
       trace =
         [OnProgress 0 2 1 (Translating 1 2),
          OnLog Request (Sending 1 [entry1]) (Some (1, 2)),
          OnLog Response (Received 1 [entry1\<lparr>entry_text := utf16 ''Hallo''\<rparr>]) (Some (1, 2)),
          OnBatchComplete 1 [entry1\<lparr>entry_text := utf16 ''Hallo''\<rparr>] False,
          OnProgress 1 2 1 (Completed 1 2),
          OnProgress 1 2 0 WaitingBeforeNext,
          Slept 4000]\<rparr>)"
  by code_simp

text \<open>
  C6 as stated fails. In the first run the signal aborts at time 100, during the backoff
  wait from time 50 to time 16050; in the second at time 2000, during the wait between
  the batches from time 50 to time 4050. Both runs fail with the cancellation only when
  the wait is over, with the full sleep recorded.
\<close>

theorem sleep_runs_to_completion:
  "abort_at limited_then_abort = Some 100 \<and>
   fst (translateBatchWithRetry limited_then_abort batch1 5 record_waiting start) = Inl cancelled \<and>
   now (snd (translateBatchWithRetry limited_then_abort batch1 5 record_waiting start)) = 16050 \<and>
   last (trace (snd (translateBatchWithRetry limited_then_abort batch1 5 record_waiting start))) =
     Slept 16000 \<and>
   abort_at aborting_midway = Some 2000 \<and>
   fst (translateAllBatches aborting_midway [batch1, batch2] 0 [] start) = Inl cancelled \<and>
   now (snd (translateAllBatches aborting_midway [batch1, batch2] 0 [] start)) = 4050 \<and>
   last (trace (snd (translateAllBatches aborting_midway [batch1, batch2] 0 [] start))) = Slept 4000"
proof -
  have "abort_at limited_then_abort = Some 100" and "abort_at aborting_midway = Some 2000"
    by (simp_all add: limited_then_abort_def aborting_midway_def scripted_def)
  then show ?thesis
    by (simp add: limited_then_abort_run aborting_midway_run)
qed

theorem delays_run_to_completion_witness:
  "\<not> aborted limited_then_abort start \<and> abort_at limited_then_abort = Some 100 \<and>
   translateBatch limited_then_abort batch1 start =
     (Inl (utf16 ''Rate limit exceeded. Please wait a moment and try again.''),
      \<lparr>now = 50, fetches = 1, randoms = 0, trace = []\<rparr>) \<and>
   (50::real) < 100 \<and> (100::real) \<le> 50 + (15000 * 2 ^ 0 + 1 / 2 * 2000) \<and>
   (\<exists>sf. retry_loop limited_then_abort batch1 5 record_waiting 0 None start = (Inl cancelled, sf) \<and>
      now sf = 16050 \<and> fetches sf = 1) \<and>
   \<not> aborted aborting_midway start \<and> abort_at aborting_midway = Some 2000 \<and>
   (50::real) < 2000 \<and> (2000::real) \<le> 50 + BATCH_DELAY \<and>
   (\<exists>sf. translate_loop aborting_midway [batch1, batch2] 0 [] start = (Inl cancelled, sf) \<and>
      now sf = 4050 \<and> fetches sf = 1)"
proof -
  let ?limit = "utf16 ''Rate limit exceeded. Please wait a moment and try again.''"
  let ?s1 = "\<lparr>now = 50, fetches = 1, randoms = 0, trace = []\<rparr>"
  let ?sb = "\<lparr>now = 50, fetches = 1, randoms = 0,
              trace = [OnProgress 0 2 1 (Translating 1 2),
                       OnLog Request (Sending 1 [entry1]) (Some (1, 2))]\<rparr>"
  let ?X = "[entry1\<lparr>entry_text := utf16 ''Hallo''\<rparr>]"
  have ab1: "abort_at limited_then_abort = Some 100" and ab2: "abort_at aborting_midway = Some 2000"
    by (simp_all add: limited_then_abort_def aborting_midway_def scripted_def)
  have na1: "\<not> aborted limited_then_abort start" and na2: "\<not> aborted aborting_midway start"
    by (simp_all add: aborted_def ab1 ab2 start_def)
  have tb: "translateBatch limited_then_abort batch1 start = (Inl ?limit, ?s1)"
    by (simp add: translateBatch_eq callGeminiAPI_429 start_def limited_then_abort_def scripted_def
        status_reply_def)
  have lim: "isRetryable ?limit"
    by (rule isRetryable_fixed)
  have rnd: "random limited_then_abort 0 = 1 / 2"
    by (simp add: limited_then_abort_def scripted_def)
  have call: "translateBatchWithRetry aborting_midway ([batch1, batch2] ! 0) 5
      (waiting_callback [batch1, batch2] 0) (before_batch [batch1, batch2] 0 start) = (Inr ?X, ?sb)"
    by code_simp
  note inst = delays_run_to_completion [where w = limited_then_abort and s = start and attempt = 0
      and maxRetries = 5 and b = batch1 and m = ?limit and s' = ?s1 and t = 100
      and onWaiting = record_waiting and lastError = None]
  have retry: "\<exists>sf. retry_loop limited_then_abort batch1 5 record_waiting 0 None start = (Inl cancelled, sf) \<and>
      now sf = 16050 \<and> fetches sf = 1"
    using inst na1 tb lim ab1 by (simp add: rnd)
  note inst2 = delays_run_to_completion [where w = aborting_midway and s = start and i = 0
      and batches = "[batch1, batch2]" and translatedEntries = ?X and sb = ?sb and t = 2000
      and running = "[]"]
  have loop: "\<exists>sf. translate_loop aborting_midway [batch1, batch2] 0 [] start = (Inl cancelled, sf) \<and>
      now sf = 4050 \<and> fetches sf = 1"
    using inst2 na2 call ab2 by (simp add: BATCH_DELAY_def)
  show ?thesis
    using na1 ab1 tb retry na2 ab2 loop by (simp add: BATCH_DELAY_def)
qed

section \<open>Properties of \<open>validateApiKey\<close>\<close>

lemma trim_empty_iff: "trim s = [] \<longleftrightarrow> (\<forall>c \<in> set s. is_js_space c)"
proof -
  have "(\<forall>x \<in> set (dropWhile is_js_space s). is_js_space x) \<longleftrightarrow> dropWhile is_js_space s = []"
  proof
    assume all: "\<forall>x \<in> set (dropWhile is_js_space s). is_js_space x"
    show "dropWhile is_js_space s = []"
    proof (rule ccontr)
      assume ne: "dropWhile is_js_space s \<noteq> []"
      then have "\<not> is_js_space (hd (dropWhile is_js_space s))"
        by (rule hd_dropWhile)
      moreover have "hd (dropWhile is_js_space s) \<in> set (dropWhile is_js_space s)"
        using ne by simp
      ultimately show False
        using all by blast
    qed
  qed (simp del: dropWhile_eq_Nil_conv)
  then show ?thesis
    by (simp add: trim_def)
qed

text \<open>
  C10. For an empty key or one of white space only, \<open>validateApiKey\<close> gives \<open>false\<close>
  and leaves the state as it is: no fetch is made. It never throws: the result is always
  a boolean, and it is \<open>false\<close> when the fetch rejects or the response is not \<open>ok\<close>.
\<close>

theorem validateApiKey_safe:
  "((apiKey = [] \<or> (\<forall>c \<in> set apiKey. is_js_space c)) \<longrightarrow> validateApiKey w apiKey s = (Inr False, s)) \<and>
   (\<exists>r s'. validateApiKey w apiKey s = (Inr r, s')) \<and>
   (\<forall>m. fetch_reply w (fetches s) = FetchRejects m \<longrightarrow> fst (validateApiKey w apiKey s) = Inr False) \<and>
   (\<forall>response. fetch_reply w (fetches s) = FetchResolves response \<and> \<not> ok response \<longrightarrow>
      fst (validateApiKey w apiKey s) = Inr False)"
  by (auto simp: validateApiKey_def validate_request_def do_fetch_def trim_empty_iff
      split: fetch_outcome.splits prod.splits sum.splits)

theorem validateApiKey_safe_witness:
  "validateApiKey (scripted [] None) (utf16 '' '') start = (Inr False, start) \<and>
   fetch_reply (scripted [] None) (fetches start) = FetchRejects (utf16 ''Failed to fetch'') \<and>
   fst (validateApiKey (scripted [] None) (utf16 ''key'') start) = Inr False \<and>
   fetch_reply (scripted [status_reply 403 None] None) (fetches start) = status_reply 403 None \<and>
   \<not> ok \<lparr>status = 403, json = Json \<lparr>error_message = None, promptFeedback = None, candidates = None\<rparr>\<rparr> \<and>
   fst (validateApiKey (scripted [status_reply 403 None] None) (utf16 ''key'') start) = Inr False"
  using validateApiKey_safe [of "utf16 '' ''" "scripted [] None" start]
    validateApiKey_safe [of "utf16 ''key''" "scripted [] None" start]
    validateApiKey_safe [of "utf16 ''key''" "scripted [status_reply 403 None] None" start]
  by (simp add: utf16_def is_js_space_def scripted_def start_def status_reply_def ok_def)

end
